theory Spec2Isabelle
  imports Main "HOL-Library.Word" "HOL-Library.Multiset"
begin

unbundle bit_operations_syntax

section \<open>SHA-512, the digest of \<^verbatim>\<open>crypto/sha512\<close>\<close>

text \<open>
  \<^verbatim>\<open>copyAndChecksum\<close> hashes with \<^verbatim>\<open>sha512.New()\<close>. The digest function is
  written out here as FIPS 180-4 defines it: the message is padded to a multiple of 128
  bytes, every block is expanded to an 80-word schedule and run through 80 rounds, and
  the eight chaining words are emitted big-endian.
\<close>

type_synonym byte = "8 word"
type_synonym u64 = "64 word"

definition K512 :: "u64 list" where
  "K512 =
  [0x428A2F98D728AE22, 0x7137449123EF65CD, 0xB5C0FBCFEC4D3B2F, 0xE9B5DBA58189DBBC,
   0x3956C25BF348B538, 0x59F111F1B605D019, 0x923F82A4AF194F9B, 0xAB1C5ED5DA6D8118,
   0xD807AA98A3030242, 0x12835B0145706FBE, 0x243185BE4EE4B28C, 0x550C7DC3D5FFB4E2,
   0x72BE5D74F27B896F, 0x80DEB1FE3B1696B1, 0x9BDC06A725C71235, 0xC19BF174CF692694,
   0xE49B69C19EF14AD2, 0xEFBE4786384F25E3, 0x0FC19DC68B8CD5B5, 0x240CA1CC77AC9C65,
   0x2DE92C6F592B0275, 0x4A7484AA6EA6E483, 0x5CB0A9DCBD41FBD4, 0x76F988DA831153B5,
   0x983E5152EE66DFAB, 0xA831C66D2DB43210, 0xB00327C898FB213F, 0xBF597FC7BEEF0EE4,
   0xC6E00BF33DA88FC2, 0xD5A79147930AA725, 0x06CA6351E003826F, 0x142929670A0E6E70,
   0x27B70A8546D22FFC, 0x2E1B21385C26C926, 0x4D2C6DFC5AC42AED, 0x53380D139D95B3DF,
   0x650A73548BAF63DE, 0x766A0ABB3C77B2A8, 0x81C2C92E47EDAEE6, 0x92722C851482353B,
   0xA2BFE8A14CF10364, 0xA81A664BBC423001, 0xC24B8B70D0F89791, 0xC76C51A30654BE30,
   0xD192E819D6EF5218, 0xD69906245565A910, 0xF40E35855771202A, 0x106AA07032BBD1B8,
   0x19A4C116B8D2D0C8, 0x1E376C085141AB53, 0x2748774CDF8EEB99, 0x34B0BCB5E19B48A8,
   0x391C0CB3C5C95A63, 0x4ED8AA4AE3418ACB, 0x5B9CCA4F7763E373, 0x682E6FF3D6B2B8A3,
   0x748F82EE5DEFB2FC, 0x78A5636F43172F60, 0x84C87814A1F0AB72, 0x8CC702081A6439EC,
   0x90BEFFFA23631E28, 0xA4506CEBDE82BDE9, 0xBEF9A3F7B2C67915, 0xC67178F2E372532B,
   0xCA273ECEEA26619C, 0xD186B8C721C0C207, 0xEADA7DD6CDE0EB1E, 0xF57D4F7FEE6ED178,
   0x06F067AA72176FBA, 0x0A637DC5A2C898A6, 0x113F9804BEF90DAE, 0x1B710B35131C471B,
   0x28DB77F523047D84, 0x32CAAB7B40C72493, 0x3C9EBE0A15C9BEBC, 0x431D67C49C100D4C,
   0x4CC5D4BECB3E42B6, 0x597F299CFC657E2A, 0x5FCB6FAB3AD6FAEC, 0x6C44198C4A475817]"

type_synonym regs = "u64 \<times> u64 \<times> u64 \<times> u64 \<times> u64 \<times> u64 \<times> u64 \<times> u64"

definition init512 :: regs where
  "init512 =
  (0x6A09E667F3BCC908, 0xBB67AE8584CAA73B, 0x3C6EF372FE94F82B, 0xA54FF53A5F1D36F1,
   0x510E527FADE682D1, 0x9B05688C2B3E6C1F, 0x1F83D9ABFB41BD6B, 0x5BE0CD19137E2179)"

definition rotr :: "nat \<Rightarrow> u64 \<Rightarrow> u64" where
  "rotr n x = drop_bit n x OR push_bit (64 - n) x"

definition bsig0 :: "u64 \<Rightarrow> u64" where
  "bsig0 x = rotr 28 x XOR rotr 34 x XOR rotr 39 x"

definition bsig1 :: "u64 \<Rightarrow> u64" where
  "bsig1 x = rotr 14 x XOR rotr 18 x XOR rotr 41 x"

definition ssig0 :: "u64 \<Rightarrow> u64" where
  "ssig0 x = rotr 1 x XOR rotr 8 x XOR drop_bit 7 x"

definition ssig1 :: "u64 \<Rightarrow> u64" where
  "ssig1 x = rotr 19 x XOR rotr 61 x XOR drop_bit 6 x"

definition ch :: "u64 \<Rightarrow> u64 \<Rightarrow> u64 \<Rightarrow> u64" where
  "ch x y z = (x AND y) XOR (NOT x AND z)"

definition maj :: "u64 \<Rightarrow> u64 \<Rightarrow> u64 \<Rightarrow> u64" where
  "maj x y z = (x AND y) XOR (x AND z) XOR (y AND z)"

definition be64 :: "byte \<Rightarrow> byte \<Rightarrow> byte \<Rightarrow> byte \<Rightarrow> byte \<Rightarrow> byte \<Rightarrow> byte \<Rightarrow> byte \<Rightarrow> u64" where
  "be64 b0 b1 b2 b3 b4 b5 b6 b7 =
     push_bit 56 (ucast b0) OR push_bit 48 (ucast b1) OR push_bit 40 (ucast b2) OR
     push_bit 32 (ucast b3) OR push_bit 24 (ucast b4) OR push_bit 16 (ucast b5) OR
     push_bit 8 (ucast b6) OR ucast b7"

fun words_of :: "byte list \<Rightarrow> u64 list" where
  "words_of (b0 # b1 # b2 # b3 # b4 # b5 # b6 # b7 # bs) =
     be64 b0 b1 b2 b3 b4 b5 b6 b7 # words_of bs"
| "words_of _ = []"

definition u64_bytes :: "u64 \<Rightarrow> byte list" where
  "u64_bytes w =
     [ucast (drop_bit 56 w), ucast (drop_bit 48 w), ucast (drop_bit 40 w), ucast (drop_bit 32 w),
      ucast (drop_bit 24 w), ucast (drop_bit 16 w), ucast (drop_bit 8 w), ucast w]"

text \<open>The schedule is kept newest-first: the head is W[t-1].\<close>
fun sched_next :: "u64 list \<Rightarrow> u64" where
  "sched_next (a1 # a2 # a3 # a4 # a5 # a6 # a7 # a8 # a9 # a10 # a11 # a12 # a13 # a14 # a15 # a16 # ws) =
     ssig1 a2 + a7 + ssig0 a15 + a16"
| "sched_next _ = 0"

fun schedule :: "nat \<Rightarrow> u64 list \<Rightarrow> u64 list" where
  "schedule 0 ws = ws"
| "schedule (Suc n) ws = schedule n (sched_next ws # ws)"

fun round512 :: "regs \<Rightarrow> u64 \<times> u64 \<Rightarrow> regs" where
  "round512 (a, b, c, d, e, f, g, h) (k, w) =
     (let t1 = h + bsig1 e + ch e f g + k + w;
          t2 = bsig0 a + maj a b c
      in (t1 + t2, a, b, c, d + t1, e, f, g))"

fun add_regs :: "regs \<Rightarrow> regs \<Rightarrow> regs" where
  "add_regs (a, b, c, d, e, f, g, h) (a', b', c', d', e', f', g', h') =
     (a + a', b + b', c + c', d + d', e + e', f + f', g + g', h + h')"

definition block512 :: "regs \<Rightarrow> byte list \<Rightarrow> regs" where
  "block512 hs blk =
     add_regs hs (foldl round512 hs (zip K512 (rev (schedule 64 (rev (words_of blk))))))"

function blocks512 :: "regs \<Rightarrow> byte list \<Rightarrow> regs" where
  "blocks512 hs bs =
     (if length bs < 128 then hs else blocks512 (block512 hs (take 128 bs)) (drop 128 bs))"
  by pat_completeness auto
termination
  by (relation "measure (\<lambda>(hs, bs). length bs)") auto

declare blocks512.simps [simp del]

definition pad512 :: "byte list \<Rightarrow> byte list" where
  "pad512 m =
     m @ 0x80 # replicate ((239 - length m mod 128) mod 128) 0
       @ u64_bytes 0 @ u64_bytes (word_of_nat (8 * length m))"

fun regs_bytes :: "regs \<Rightarrow> byte list" where
  "regs_bytes (a, b, c, d, e, f, g, h) =
     u64_bytes a @ u64_bytes b @ u64_bytes c @ u64_bytes d @
     u64_bytes e @ u64_bytes f @ u64_bytes g @ u64_bytes h"

definition sha512 :: "byte list \<Rightarrow> byte list" where
  "sha512 m = regs_bytes (blocks512 init512 (pad512 m))"


section \<open>Hex encoding, \<^verbatim>\<open>encoding/hex\<close>\<close>

text \<open>
  \<^verbatim>\<open>hex.EncodeToString\<close> writes two characters of \<^verbatim>\<open>hextable\<close> per byte:
  \<^verbatim>\<open>hextable[v>>4]\<close> and \<^verbatim>\<open>hextable[v&0x0f]\<close>.
\<close>

definition hextable :: string where
  "hextable = ''0123456789abcdef''"

fun EncodeToString :: "byte list \<Rightarrow> string" where
  "EncodeToString [] = []"
| "EncodeToString (v # src) =
     hextable ! unat (drop_bit 4 v) # hextable ! unat (v AND 0x0f) # EncodeToString src"

section \<open>Readers, writers and \<^verbatim>\<open>io.Copy\<close>\<close>

text \<open>
  Errors are values. \<open>EOF\<close>, \<open>ErrShortWrite\<close> and \<open>errInvalidWrite\<close> are the
  sentinels of package \<^verbatim>\<open>io\<close>; \<open>IOError\<close> stands for any other error a reader or
  writer hands back.
\<close>

datatype error = EOF | ErrShortWrite | errInvalidWrite | IOError string

text \<open>
  An \<^verbatim>\<open>io.Reader\<close> is the script of what its successive \<^verbatim>\<open>Read\<close> calls return: the
  bytes placed in the buffer and the error, if any. A reader whose script is used up
  returns \<^verbatim>\<open>(0, io.EOF)\<close>. A source that never ends and never fails has no script;
  \<^verbatim>\<open>io.Copy\<close> does not return on it.
\<close>

type_synonym read_result = "byte list \<times> error option"
type_synonym reader = "read_result list"

text \<open>
  An \<^verbatim>\<open>io.Writer\<close> is the bytes it has taken so far and the script of how it answers
  the next \<^verbatim>\<open>Write\<close> calls: \<open>WriteAll\<close> takes the whole slice and returns
  \<^verbatim>\<open>(len(p), nil)\<close>; \<open>WriteRet n err\<close> returns \<^verbatim>\<open>(n, err)\<close> after taking the first
  \<open>n\<close> bytes of the slice. When the script is used up every write is taken whole, as
  a \<^verbatim>\<open>bytes.Buffer\<close> does.
\<close>

datatype write_response = WriteAll | WriteRet int "error option"

record writer =
  received :: "byte list"
  responses :: "write_response list"

definition Write :: "writer \<Rightarrow> byte list \<Rightarrow> (int \<times> error option) \<times> writer" where
  "Write w p =
     (case responses w of
        [] \<Rightarrow> ((int (length p), None), w\<lparr>received := received w @ p\<rparr>)
      | WriteAll # rs \<Rightarrow>
          ((int (length p), None), w\<lparr>received := received w @ p, responses := rs\<rparr>)
      | WriteRet n err # rs \<Rightarrow>
          ((n, err), w\<lparr>received := received w @ take (nat n) p, responses := rs\<rparr>))"

text \<open>
  The running hash (\<^verbatim>\<open>hash.Hash\<close>) is the bytes written to it so far. Its \<^verbatim>\<open>Write\<close>
  never fails, and \<^verbatim>\<open>Sum(b)\<close> appends the digest of everything written to \<open>b\<close>.
\<close>

type_synonym digest = "byte list"

definition New :: digest where
  "New = []"

definition digest_Write :: "digest \<Rightarrow> byte list \<Rightarrow> (int \<times> error option) \<times> digest" where
  "digest_Write d p = ((int (length p), None), d @ p)"

definition Sum :: "digest \<Rightarrow> byte list \<Rightarrow> byte list" where
  "Sum d b = b @ sha512 d"

text \<open>
  \<^verbatim>\<open>io.MultiWriter(w, h)\<close> writes the slice to each writer in turn and stops at the
  first one that returns an error or a count other than \<^verbatim>\<open>len(p)\<close>:
  \<^verbatim>\<open>
  for _, w := range t.writers {
      n, err = w.Write(p)
      if err != nil { return }
      if n != len(p) { err = ErrShortWrite; return }
  }
  return len(p), nil
  \<close>
\<close>

type_synonym multiWriter = "writer \<times> digest"

definition MultiWriter :: "writer \<Rightarrow> digest \<Rightarrow> multiWriter" where
  "MultiWriter w h = (w, h)"

definition multiWriter_Write ::
  "multiWriter \<Rightarrow> byte list \<Rightarrow> (int \<times> error option) \<times> multiWriter" where
  "multiWriter_Write t p =
     (case t of (w, h) \<Rightarrow>
        (case Write w p of ((n, err), w') \<Rightarrow>
           if err \<noteq> None then ((n, err), (w', h))
           else if n \<noteq> int (length p) then ((n, Some ErrShortWrite), (w', h))
           else
             (case digest_Write h p of ((n', err'), h') \<Rightarrow>
                if err' \<noteq> None then ((n', err'), (w', h'))
                else if n' \<noteq> int (length p) then ((n', Some ErrShortWrite), (w', h'))
                else ((int (length p), None), (w', h')))))"

text \<open>
  The loop of \<^verbatim>\<open>io.Copy\<close> (\<^verbatim>\<open>copyBuffer\<close>), for a source that is a plain reader and
  the multi-writer as destination:
  \<^verbatim>\<open>
  for {
      nr, er := src.Read(buf)
      if nr > 0 {
          nw, ew := dst.Write(buf[0:nr])
          if nw < 0 || nr < nw {
              nw = 0
              if ew == nil { ew = errInvalidWrite }
          }
          written += int64(nw)
          if ew != nil { err = ew; break }
          if nr != nw { err = ErrShortWrite; break }
      }
      if er != nil {
          if er != EOF { err = er }
          break
      }
  }
  return written, err
  \<close>
  \<open>write_chunk\<close> is the body of \<^verbatim>\<open>if nr > 0\<close>: it returns the error that breaks the
  loop, if any, the destination and the new count.
\<close>

definition write_chunk ::
  "multiWriter \<Rightarrow> byte list \<Rightarrow> int \<Rightarrow> error option \<times> multiWriter \<times> int" where
  "write_chunk dst buf written =
     (case multiWriter_Write dst buf of ((nw0, ew0), dst') \<Rightarrow>
        (let invalid = (nw0 < 0 \<or> int (length buf) < nw0);
             nw = (if invalid then 0 else nw0);
             ew = (if invalid \<and> ew0 = None then Some errInvalidWrite else ew0)
         in if ew \<noteq> None then (ew, dst', written + nw)
            else if int (length buf) \<noteq> nw then (Some ErrShortWrite, dst', written + nw)
            else (None, dst', written + nw)))"

fun copyBuffer :: "multiWriter \<Rightarrow> reader \<Rightarrow> int \<Rightarrow> (int \<times> error option) \<times> multiWriter" where
  "copyBuffer dst [] written = ((written, None), dst)"
| "copyBuffer dst ((buf, er) # src) written =
     (case (if 0 < length buf then write_chunk dst buf written else (None, dst, written)) of
        (Some e, dst', written') \<Rightarrow> ((written', Some e), dst')
      | (None, dst', written') \<Rightarrow>
          (case er of
             Some e \<Rightarrow> ((written', if e \<noteq> EOF then Some e else None), dst')
           | None \<Rightarrow> copyBuffer dst' src written'))"

definition Copy :: "multiWriter \<Rightarrow> reader \<Rightarrow> (int \<times> error option) \<times> multiWriter" where
  "Copy dst src = copyBuffer dst src 0"

section \<open>\<^verbatim>\<open>copyAndChecksum\<close>\<close>

text \<open>
  \<^verbatim>\<open>
  func copyAndChecksum(w io.Writer, r io.Reader) (string, error) {
      h := sha512.New()
      mw := io.MultiWriter(w, h)
      if _, err := io.Copy(mw, r); err != nil {
          return "", err
      }
      return hex.EncodeToString(h.Sum(nil)), nil
  }
  \<close>
  The model returns the destination writer as well, since writing to it is the
  function's side effect.
\<close>

definition copyAndChecksum :: "writer \<Rightarrow> reader \<Rightarrow> (string \<times> error option) \<times> writer" where
  "copyAndChecksum w r =
     (let h = New;
          mw = MultiWriter w h
      in case Copy mw r of
           ((_, err), (w', h')) \<Rightarrow>
             if err \<noteq> None then (([], err), w')
             else ((EncodeToString (Sum h' []), None), w'))"

text \<open>
  The bytes a reader delivers: every chunk up to and including the first read that
  returns an error (\<^verbatim>\<open>io.EOF\<close> or another).
\<close>

fun stream :: "reader \<Rightarrow> byte list" where
  "stream [] = []"
| "stream ((buf, None) # src) = buf @ stream src"
| "stream ((buf, Some e) # src) = buf"

text \<open>A reader that ends: its first error, if it returns one at all, is \<^verbatim>\<open>io.EOF\<close>.\<close>

fun ends_with_EOF :: "reader \<Rightarrow> bool" where
  "ends_with_EOF [] = True"
| "ends_with_EOF ((buf, None) # src) = ends_with_EOF src"
| "ends_with_EOF ((buf, Some e) # src) = (e = EOF)"


text \<open>
  The number of \<^verbatim>\<open>Write\<close> calls a run of reads causes: one for every read that
  returned bytes.
\<close>

definition writes :: "reader \<Rightarrow> nat" where
  "writes pre = length (filter (\<lambda>(buf, er). buf \<noteq> []) pre)"


section \<open>The payload: \<^verbatim>\<open>APS\<close> and its \<^verbatim>\<open>Map\<close>\<close>

text \<open>
  The \<^verbatim>\<open>Alert\<close> and \<^verbatim>\<open>Sound\<close> dictionaries and the \<^verbatim>\<open>APS\<close> struct, field by field.
  A \<^verbatim>\<open>float32\<close> is its 32 bits. The badge type lives in another package
  (\<^verbatim>\<open>payload/badge\<close>); \<^verbatim>\<open>Map\<close> only calls its \<^verbatim>\<open>Number\<close> method, which is a parameter
  here.
\<close>

type_synonym float32 = "32 word"
type_synonym uint = "64 word"

record Alert =
  Title :: string
  TitleLocKey :: string
  TitleLocArgs :: "string list"
  Subtitle :: string
  SubtitleLocKey :: string
  SubtitleLocArgs :: "string list"
  Body :: string
  LocKey :: string
  LocArgs :: "string list"
  ActionLocKey :: string
  LaunchImage :: string
  SafariAction :: string

record Sound =
  SoundName :: string
  IsCritical :: int
  CriticalVolume :: float32

record 'b APS =
  Alert :: Alert
  Badge :: 'b
  Sound :: Sound
  ThreadID :: string
  Category :: string
  ContentAvailable :: bool
  MutableContent :: bool
  TargetContentID :: string
  SafariURLArgs :: "string list"
  InterruptionLevel :: string
  RelevanceScore :: float32

text \<open>
  \<^verbatim>\<open>x > 0\<close> on a \<^verbatim>\<open>float32\<close>: the sign bit is clear, the value is not zero and it
  is not a NaN (all exponent bits set and a non-zero fraction).
\<close>

definition float32_positive :: "float32 \<Rightarrow> bool" where
  "float32_positive x \<longleftrightarrow>
     \<not> bit x 31 \<and> x \<noteq> 0 \<and> \<not> (x AND 0x7F800000 = 0x7F800000 \<and> x AND 0x007FFFFF \<noteq> 0)"

text \<open>
  \<^verbatim>\<open>
  // isSimple alert with only Body set.
  func (a *Alert) isSimple() bool {
      return len(a.Title) == 0 && len(a.Subtitle) == 0 &&
          len(a.LaunchImage) == 0 &&
          len(a.TitleLocKey) == 0 && len(a.TitleLocArgs) == 0 &&
          len(a.LocKey) == 0 && len(a.LocArgs) == 0 && len(a.ActionLocKey) == 0
  }
  // isZero if no Alert fields are set.
  func (a *Alert) isZero() bool {
      return len(a.Body) == 0 && a.isSimple()
  }
  \<close>
\<close>

definition isSimple :: "Alert \<Rightarrow> bool" where
  "isSimple a \<longleftrightarrow>
     length (Title a) = 0 \<and> length (Subtitle a) = 0 \<and>
     length (LaunchImage a) = 0 \<and>
     length (TitleLocKey a) = 0 \<and> length (TitleLocArgs a) = 0 \<and>
     length (LocKey a) = 0 \<and> length (LocArgs a) = 0 \<and> length (ActionLocKey a) = 0"

definition isZero :: "Alert \<Rightarrow> bool" where
  "isZero a \<longleftrightarrow> length (Body a) = 0 \<and> isSimple a"

text \<open>The values \<^verbatim>\<open>Map\<close> stores under \<^verbatim>\<open>interface{}\<close>.\<close>

datatype val =
    VString string
  | VAlert Alert
  | VUint uint
  | VSound Sound
  | VInt int
  | VStrings "string list"
  | VInterruptionLevel string
  | VFloat32 float32

text \<open>
  \<^verbatim>\<open>Map\<close> fills the inner map key by key, each under its own condition, and wraps it
  under \<^verbatim>\<open>"aps"\<close>.
\<close>

definition Map :: "('b \<Rightarrow> uint \<times> bool) \<Rightarrow> 'b APS \<Rightarrow> (string \<rightharpoonup> (string \<rightharpoonup> val))" where
  "Map Number a =
     (let aps = Map.empty;
          aps = (if \<not> isZero (Alert a)
                 then (if isSimple (Alert a)
                       then aps(''alert'' \<mapsto> VString (Body (Alert a)))
                       else aps(''alert'' \<mapsto> VAlert (Alert a)))
                 else aps);
          aps = (case Number (Badge a) of
                   (n, ok) \<Rightarrow> if ok then aps(''badge'' \<mapsto> VUint n) else aps);
          aps = (if SoundName (Sound a) \<noteq> [] then aps(''sound'' \<mapsto> VSound (Sound a)) else aps);
          aps = (if ContentAvailable a then aps(''content-available'' \<mapsto> VInt 1) else aps);
          aps = (if Category a \<noteq> [] then aps(''category'' \<mapsto> VString (Category a)) else aps);
          aps = (if MutableContent a then aps(''mutable-content'' \<mapsto> VInt 1) else aps);
          aps = (if ThreadID a \<noteq> [] then aps(''thread-id'' \<mapsto> VString (ThreadID a)) else aps);
          aps = (if TargetContentID a \<noteq> []
                 then aps(''target-content-id'' \<mapsto> VString (TargetContentID a)) else aps);
          aps = (if 0 < length (SafariURLArgs a)
                 then aps(''url-args'' \<mapsto> VStrings (SafariURLArgs a)) else aps);
          aps = (if InterruptionLevel a \<noteq> []
                 then aps(''interruption-level'' \<mapsto> VInterruptionLevel (InterruptionLevel a))
                 else aps);
          aps = (if float32_positive (RelevanceScore a)
                 then aps(''relevance-score'' \<mapsto> VFloat32 (RelevanceScore a)) else aps)
      in [''aps'' \<mapsto> aps])"

text \<open>The zero values of \<^verbatim>\<open>Alert\<close> and \<^verbatim>\<open>APS\<close>: every string and slice empty, every
  flag false, every number zero.\<close>

definition Alert_zero :: Alert where
  "Alert_zero =
     \<lparr>Title = [], TitleLocKey = [], TitleLocArgs = [], Subtitle = [], SubtitleLocKey = [],
      SubtitleLocArgs = [], Body = [], LocKey = [], LocArgs = [], ActionLocKey = [],
      LaunchImage = [], SafariAction = []\<rparr>"

definition APS_zero :: "'b \<Rightarrow> 'b APS" where
  "APS_zero b =
     \<lparr>Alert = Alert_zero, Badge = b,
      Sound = \<lparr>SoundName = [], IsCritical = 0, CriticalVolume = 0\<rparr>,
      ThreadID = [], Category = [], ContentAvailable = False, MutableContent = False,
      TargetContentID = [], SafariURLArgs = [], InterruptionLevel = [], RelevanceScore = 0\<rparr>"

section \<open>The push package builder\<close>

text \<open>
  The builder itself (manifest, signing and archive assembly) is not among the sources
  at hand; only \<^verbatim>\<open>copyAndChecksum\<close>, which it calls for every file, is. The
  definitions of this section follow the specification's description of the builder.
\<close>

text \<open>Modelled from the spec: the error taxonomy of the builder (section 7), which is
  not in the sources.\<close>
datatype build_error =
  ReadFailure | WriteFailure | DuplicatePath | SigningFailure | ArchiveWriteFailure

text \<open>Modelled from the spec: the states of one build (section 4.4), which are not in
  the sources.\<close>
datatype build_state = Empty | WritingFiles | ManifestReady | Signed | Finalized

text \<open>Modelled from the spec: the order of the states,
  \<open>Empty \<rightarrow> WritingFiles \<rightarrow> ManifestReady \<rightarrow> Signed \<rightarrow> Finalized\<close>; the builder's
  source is missing.\<close>
fun next_state :: "build_state \<Rightarrow> build_state option" where
  "next_state Empty = Some WritingFiles"
| "next_state WritingFiles = Some ManifestReady"
| "next_state ManifestReady = Some Signed"
| "next_state Signed = Some Finalized"
| "next_state Finalized = None"

text \<open>Modelled from the spec: a FileEntry (section 3), a relative path and a content
  stream read once; its declaration is missing from the sources.\<close>
record FileEntry =
  path :: string
  content :: reader

text \<open>Modelled from the spec: the Manifest (section 3), an ordered mapping from path to
  hex digest; its declaration is missing from the sources.\<close>
type_synonym Manifest = "(string \<times> string) list"

text \<open>Modelled from the spec: the SigningIdentity (section 3), an opaque handle. What the
  builder can observe of it is what signing a byte sequence with it yields (nothing when the
  key is unusable) and which signatures its public counterpart accepts. The signer's source
  is missing.\<close>
record SigningIdentity =
  sign :: "byte list \<Rightarrow> byte list option"
  verify :: "byte list \<Rightarrow> byte list \<Rightarrow> bool"

text \<open>Modelled from the spec: a valid identity signs every byte sequence, and its public
  counterpart accepts what it signed (section 8); the signer's source is missing.\<close>
definition valid_identity :: "SigningIdentity \<Rightarrow> bool" where
  "valid_identity i \<longleftrightarrow> (\<forall>m. \<exists>s. sign i m = Some s \<and> verify i m s)"

text \<open>Modelled from the spec: the Package under construction (sections 3 and 4.4): the
  state of the build, the archive entries in the order they were written and the manifest
  so far. The archive is held in memory, so a write to it does not fail. The assembler's
  source is missing.\<close>
record Package =
  state :: build_state
  entries :: "(string \<times> byte list) list"
  manifest :: Manifest

text \<open>Modelled from the spec: a fresh builder value (section 9); the builder's source is
  missing.\<close>
definition new_package :: Package where
  "new_package = \<lparr>state = Empty, entries = [], manifest = []\<rparr>"

text \<open>Modelled from the spec: the manifest as a JSON object from path to digest
  (section 6), in the manifest's own order, with quotes and backslashes escaped. The
  serializer's source is missing.\<close>
fun json_escape :: "string \<Rightarrow> string" where
  "json_escape [] = []"
| "json_escape (c # cs) =
     (if c = CHR 0x22 \<or> c = CHR 0x5C then CHR 0x5C # c # json_escape cs
      else c # json_escape cs)"

text \<open>Modelled from the spec: a JSON string literal (section 6); the serializer's source
  is missing.\<close>
definition json_string :: "string \<Rightarrow> string" where
  "json_string s = CHR 0x22 # json_escape s @ [CHR 0x22]"

text \<open>Modelled from the spec: the members of the JSON object, comma separated
  (section 6); the serializer's source is missing.\<close>
fun json_members :: "Manifest \<Rightarrow> string" where
  "json_members [] = []"
| "json_members [(p, d)] = json_string p @ '':'' @ json_string d"
| "json_members ((p, d) # m) = json_string p @ '':'' @ json_string d @ '','' @ json_members m"

text \<open>Modelled from the spec: the bytes of \<^verbatim>\<open>manifest.json\<close> (sections 4.3 and 6), the
  same bytes for the archive entry and for the signature; the serializer's source is
  missing.\<close>
definition manifest_bytes :: "Manifest \<Rightarrow> byte list" where
  "manifest_bytes m = map of_char (''{'' @ json_members m @ ''}'')"

text \<open>Modelled from the spec: the build leaves \<open>Empty\<close> when it starts writing files
  (section 4.4); the assembler's source is missing.\<close>
definition begin_files :: "Package \<Rightarrow> build_error + Package" where
  "begin_files p =
     (if state p \<noteq> Empty then Inl ArchiveWriteFailure
      else Inr (p\<lparr>state := WritingFiles\<rparr>))"

text \<open>Modelled from the spec: one file is written as an archive entry named by its path
  while \<^verbatim>\<open>copyAndChecksum\<close> computes its digest in the same pass; a path already in
  the manifest is rejected with \<open>DuplicatePath\<close>, a content that cannot be read to its
  end with \<open>ReadFailure\<close> (sections 4.2 and 4.4). The assembler's source is missing.\<close>
definition add_file :: "Package \<Rightarrow> FileEntry \<Rightarrow> build_error + Package" where
  "add_file p f =
     (if state p \<noteq> WritingFiles then Inl ArchiveWriteFailure
      else if path f \<in> fst ` set (manifest p) then Inl DuplicatePath
      else
        (case copyAndChecksum \<lparr>received = [], responses = []\<rparr> (content f) of
           ((checksum, Some e), w) \<Rightarrow> Inl ReadFailure
         | ((checksum, None), w) \<Rightarrow>
             Inr (p\<lparr>entries := entries p @ [(path f, received w)],
                    manifest := manifest p @ [(path f, checksum)]\<rparr>)))"

text \<open>Modelled from the spec: once all files are written the manifest is serialized and
  written as \<^verbatim>\<open>manifest.json\<close> (section 4.4, step 2); the assembler's source is
  missing.\<close>
definition write_manifest :: "Package \<Rightarrow> build_error + Package" where
  "write_manifest p =
     (if state p \<noteq> WritingFiles then Inl ArchiveWriteFailure
      else Inr (p\<lparr>state := ManifestReady,
                  entries := entries p @ [(''manifest.json'', manifest_bytes (manifest p))]\<rparr>))"

text \<open>Modelled from the spec: the signer signs the manifest bytes and the signature is
  written as \<^verbatim>\<open>signature\<close>; an unusable identity is a \<open>SigningFailure\<close> (sections 4.3
  and 4.4, step 3). The signer's source is missing.\<close>
definition sign_manifest :: "SigningIdentity \<Rightarrow> Package \<Rightarrow> build_error + Package" where
  "sign_manifest i p =
     (if state p \<noteq> ManifestReady then Inl ArchiveWriteFailure
      else
        (case sign i (manifest_bytes (manifest p)) of
           None \<Rightarrow> Inl SigningFailure
         | Some s \<Rightarrow> Inr (p\<lparr>state := Signed, entries := entries p @ [(''signature'', s)]\<rparr>)))"

text \<open>Modelled from the spec: the archive is finalized after signing, and is unusable
  afterwards (section 4.4); the assembler's source is missing.\<close>
definition finalize :: "Package \<Rightarrow> build_error + Package" where
  "finalize p =
     (if state p \<noteq> Signed then Inl ArchiveWriteFailure
      else Inr (p\<lparr>state := Finalized\<rparr>))"

text \<open>Modelled from the spec: the steps of a build (section 2, control flow); the
  builder's source is missing.\<close>
datatype build_op = Begin | AddFile FileEntry | WriteManifest | Sign SigningIdentity | Finalize

text \<open>Modelled from the spec: one step of a build; the builder's source is missing.\<close>
fun apply_op :: "Package \<Rightarrow> build_op \<Rightarrow> build_error + Package" where
  "apply_op p Begin = begin_files p"
| "apply_op p (AddFile f) = add_file p f"
| "apply_op p WriteManifest = write_manifest p"
| "apply_op p (Sign i) = sign_manifest i p"
| "apply_op p Finalize = finalize p"

text \<open>Modelled from the spec: steps run in sequence, and the first failure aborts the
  rest (section 7); the builder's source is missing.\<close>
fun run :: "Package \<Rightarrow> build_op list \<Rightarrow> build_error + Package" where
  "run p [] = Inr p"
| "run p (x # xs) = (case apply_op p x of Inl e \<Rightarrow> Inl e | Inr p' \<Rightarrow> run p' xs)"

text \<open>Modelled from the spec: the states a run of steps passes through, up to its first
  failure; the builder's source is missing.\<close>
fun trace :: "Package \<Rightarrow> build_op list \<Rightarrow> build_state list" where
  "trace p [] = [state p]"
| "trace p (x # xs) =
     state p # (case apply_op p x of Inl e \<Rightarrow> [] | Inr p' \<Rightarrow> trace p' xs)"

text \<open>Modelled from the spec: the Manifest Builder (section 4.2): the files are written in
  the order given; two entries with the same path are rejected. The builder's source is
  missing.\<close>
definition build_manifest :: "FileEntry list \<Rightarrow> build_error + Manifest" where
  "build_manifest fs =
     (if \<not> distinct (map path fs) then Inl DuplicatePath
      else
        (case run new_package (Begin # map AddFile fs) of
           Inl e \<Rightarrow> Inl e
         | Inr p \<Rightarrow> Inr (manifest p)))"

text \<open>Modelled from the spec: the steps of a whole build, in the order of section 4.4;
  the builder's source is missing.\<close>
definition build_ops :: "SigningIdentity \<Rightarrow> FileEntry list \<Rightarrow> build_op list" where
  "build_ops i fs = Begin # map AddFile fs @ [WriteManifest, Sign i, Finalize]"

text \<open>Modelled from the spec: a whole build (sections 2 and 4.4): a set of files with a
  duplicate path is rejected, otherwise the steps are run; the result is a failure or the
  finalized package. The builder's source is missing.\<close>
definition build :: "SigningIdentity \<Rightarrow> FileEntry list \<Rightarrow> build_error + Package" where
  "build i fs =
     (if \<not> distinct (map path fs) then Inl DuplicatePath
      else run new_package (build_ops i fs))"

text \<open>Modelled from the spec: a transition either stays in \<open>WritingFiles\<close> (one more
  file) or moves to the next state of the sequence; a list of states is a legal history when
  each of its transitions is one (section 4.4). The builder's source is missing.\<close>
fun steps_ok :: "build_state list \<Rightarrow> bool" where
  "steps_ok (s # s' # ss) \<longleftrightarrow>
     (s' = s \<and> s = WritingFiles \<or> next_state s = Some s') \<and> steps_ok (s' # ss)"
| "steps_ok ss \<longleftrightarrow> True"

text \<open>The pair a file contributes to the manifest: its path and the hex SHA-512 digest of
  its content.\<close>
definition manifest_pair :: "FileEntry \<Rightarrow> string \<times> string" where
  "manifest_pair f = (path f, EncodeToString (sha512 (stream (content f))))"

text \<open>The archive entry of a file: its path and its content.\<close>
definition archive_entry :: "FileEntry \<Rightarrow> string \<times> byte list" where
  "archive_entry f = (path f, stream (content f))"

section \<open>Properties of the digest and of the hex encoding\<close>

lemma length_u64_bytes: "length (u64_bytes w) = 8"
  by (simp add: u64_bytes_def)

lemma length_regs_bytes: "length (regs_bytes r) = 64"
proof -
  obtain a b c d e f g h where "r = (a, b, c, d, e, f, g, h)"
    by (metis prod.exhaust)
  then show ?thesis by (simp add: length_u64_bytes)
qed

lemma length_sha512: "length (sha512 m) = 64"
  by (simp add: sha512_def length_regs_bytes)

lemma length_EncodeToString: "length (EncodeToString bs) = 2 * length bs"
  by (induction bs) simp_all

lemma hi_nibble_less: "unat (drop_bit 4 (v :: byte)) < 16"
proof -
  have "unat (drop_bit 4 v) = unat v div 2 ^ 4"
    by (simp add: drop_bit_eq_div unat_div)
  moreover have "unat v < 2 ^ 8"
    using unsigned_less [of v] by simp
  ultimately show ?thesis by simp
qed

lemma lo_nibble_less: "unat ((v :: byte) AND 0x0f) < 16"
proof -
  have "unat (v AND 0x0f) \<le> unat (0x0f :: byte)"
    by (rule word_and_le1 [THEN word_le_nat_alt [THEN iffD1]])
  then show ?thesis by simp
qed

lemma hextable_nth: "k < 16 \<Longrightarrow> hextable ! k \<in> set ''0123456789abcdef''"
  unfolding hextable_def using nth_mem [of k "''0123456789abcdef''"] by simp

lemma set_EncodeToString: "set (EncodeToString bs) \<subseteq> set ''0123456789abcdef''"
proof (induction bs)
  case Nil
  show ?case by simp
next
  case (Cons v bs)
  have "hextable ! unat (drop_bit 4 v) \<in> set ''0123456789abcdef''"
    by (rule hextable_nth [OF hi_nibble_less])
  moreover have "hextable ! unat (v AND 0x0f) \<in> set ''0123456789abcdef''"
    by (rule hextable_nth [OF lo_nibble_less])
  ultimately show ?case using Cons.IH by simp
qed

section \<open>Properties of \<^verbatim>\<open>io.Copy\<close> and \<^verbatim>\<open>copyAndChecksum\<close>\<close>

lemma write_chunk_None:
  assumes "write_chunk (w, h) buf n = (None, (w', h'), n')"
  shows "received w' = received w @ buf \<and> h' = h @ buf \<and> n' = n + int (length buf)"
  using assms
  by (auto simp: write_chunk_def multiWriter_Write_def Write_def digest_Write_def Let_def
      split: prod.splits list.splits write_response.splits if_splits)

lemma copyBuffer_None:
  "copyBuffer (w, h) r n = ((n', None), (w', h')) \<Longrightarrow>
     received w' = received w @ stream r \<and> h' = h @ stream r \<and> ends_with_EOF r"
proof (induction r arbitrary: w h n)
  case Nil
  then show ?case by simp
next
  case (Cons a r)
  obtain buf er where a: "a = (buf, er)" by (cases a)
  show ?case
  proof (cases "0 < length buf")
    case True
    obtain ew w1 h1 n1 where wc: "write_chunk (w, h) buf n = (ew, (w1, h1), n1)"
      by (metis prod.exhaust)
    with Cons.prems a True have ew: "ew = None"
      by (cases ew) (auto split: option.splits if_splits)
    from write_chunk_None [OF wc [unfolded ew]]
    have st: "received w1 = received w @ buf" "h1 = h @ buf" by simp_all
    show ?thesis
    proof (cases er)
      case None
      with Cons.prems a True wc ew have "copyBuffer (w1, h1) r n1 = ((n', None), (w', h'))"
        by simp
      from Cons.IH [OF this] st a None show ?thesis by simp
    next
      case (Some e)
      with Cons.prems a True wc ew st show ?thesis
        by (auto split: if_splits)
    qed
  next
    case False
    show ?thesis
    proof (cases er)
      case None
      with Cons.prems a False have "copyBuffer (w, h) r n = ((n', None), (w', h'))"
        by simp
      from Cons.IH [OF this] a None False show ?thesis by simp
    next
      case (Some e)
      with Cons.prems a False show ?thesis
        by (auto split: if_splits)
    qed
  qed
qed

lemma write_chunk_buffer:
  "responses w = [] \<Longrightarrow>
     write_chunk (w, h) buf n =
       (None, (w\<lparr>received := received w @ buf\<rparr>, h @ buf), n + int (length buf))"
  by (simp add: write_chunk_def multiWriter_Write_def Write_def digest_Write_def)

lemma copyBuffer_buffer:
  "ends_with_EOF r \<Longrightarrow> responses w = [] \<Longrightarrow>
     copyBuffer (w, h) r n =
       ((n + int (length (stream r)), None),
        (w\<lparr>received := received w @ stream r\<rparr>, h @ stream r))"
proof (induction r arbitrary: w h n rule: stream.induct)
  case 1
  then show ?case by simp
next
  case (2 buf src)
  then show ?case by (simp add: write_chunk_buffer)
next
  case (3 buf e src)
  then show ?case by (simp add: write_chunk_buffer)
qed

lemma copyBuffer_buffer_any:
  "responses w = [] \<Longrightarrow>
     snd (copyBuffer (w, h) r n) = (w\<lparr>received := received w @ stream r\<rparr>, h @ stream r)"
proof (induction r arbitrary: w h n rule: stream.induct)
  case 1
  then show ?case by simp
next
  case (2 buf src)
  then show ?case by (simp add: write_chunk_buffer)
next
  case (3 buf e src)
  then show ?case by (simp add: write_chunk_buffer)
qed

lemma copyAndChecksum_None:
  assumes "snd (fst (copyAndChecksum w r)) = None"
  shows "fst (fst (copyAndChecksum w r)) = EncodeToString (sha512 (stream r))"
    and "received (snd (copyAndChecksum w r)) = received w @ stream r"
proof -
  obtain n err w' h' where c: "copyBuffer (w, []) r 0 = ((n, err), (w', h'))"
    by (metis prod.exhaust)
  with assms have err: "err = None"
    by (auto simp: copyAndChecksum_def Copy_def MultiWriter_def New_def split: if_splits)
  from copyBuffer_None [OF c [unfolded err]]
  have "received w' = received w @ stream r" "h' = stream r" by simp_all
  with c err show "fst (fst (copyAndChecksum w r)) = EncodeToString (sha512 (stream r))"
    and "received (snd (copyAndChecksum w r)) = received w @ stream r"
    by (simp_all add: copyAndChecksum_def Copy_def MultiWriter_def New_def Sum_def)
qed

lemma copyAndChecksum_buffer:
  assumes "ends_with_EOF r" and "responses w = []"
  shows "copyAndChecksum w r =
    ((EncodeToString (sha512 (stream r)), None), w\<lparr>received := received w @ stream r\<rparr>)"
  using copyBuffer_buffer [OF assms, of "[]" 0]
  by (simp add: copyAndChecksum_def Copy_def MultiWriter_def New_def Sum_def)

text \<open>
  Claim C1. Whenever the copy succeeds, and it does succeed for every source that ends with
  \<^verbatim>\<open>io.EOF\<close> and a destination that takes every write, \<^verbatim>\<open>copyAndChecksum\<close> returns
  no error and the SHA-512 digest of the bytes read, as 128 characters of lowercase hex.
\<close>
theorem copyAndChecksum_digest:
  assumes "ends_with_EOF r \<and> responses w = [] \<or> snd (fst (copyAndChecksum w r)) = None"
  shows "fst (copyAndChecksum w r) = (EncodeToString (sha512 (stream r)), None) \<and>
         length (fst (fst (copyAndChecksum w r))) = 128 \<and>
         set (fst (fst (copyAndChecksum w r))) \<subseteq> set ''0123456789abcdef''"
proof -
  from assms have ok: "snd (fst (copyAndChecksum w r)) = None"
    by (auto simp: copyAndChecksum_buffer)
  from copyAndChecksum_None(1) [OF ok]
  have d: "fst (fst (copyAndChecksum w r)) = EncodeToString (sha512 (stream r))" .
  with ok have "fst (copyAndChecksum w r) = (EncodeToString (sha512 (stream r)), None)"
    by (simp add: prod_eq_iff)
  moreover have "length (fst (fst (copyAndChecksum w r))) = 128"
    by (simp add: d length_EncodeToString length_sha512)
  moreover have "set (fst (fst (copyAndChecksum w r))) \<subseteq> set ''0123456789abcdef''"
    unfolding d by (rule set_EncodeToString)
  ultimately show ?thesis by blast
qed

theorem copyAndChecksum_digest_witness:
  "ends_with_EOF [([0x68, 0x69], None), ([0x21], None), ([], Some EOF)] \<and>
   fst (copyAndChecksum \<lparr>received = [], responses = []\<rparr>
          [([0x68, 0x69], None), ([0x21], None), ([], Some EOF)])
     = (EncodeToString (sha512 [0x68, 0x69, 0x21]), None) \<and>
   length (fst (fst (copyAndChecksum \<lparr>received = [], responses = []\<rparr>
          [([0x68, 0x69], None), ([0x21], None), ([], Some EOF)]))) = 128"
proof -
  have h: "ends_with_EOF [([0x68, 0x69 :: byte], None), ([0x21], None), ([], Some EOF)] \<and>
      responses \<lparr>received = [], responses = []\<rparr> = [] \<or>
      snd (fst (copyAndChecksum \<lparr>received = [], responses = []\<rparr>
          [([0x68, 0x69], None), ([0x21], None), ([], Some EOF)])) = None"
    by simp
  have s: "stream [([0x68, 0x69 :: byte], None), ([0x21], None), ([], Some EOF)] = [0x68, 0x69, 0x21]"
    by simp
  from copyAndChecksum_digest [OF h] show ?thesis
    unfolding s by auto
qed

text \<open>
  Claim C2. The destination receives exactly the bytes read from the source, in order,
  appended to what it held: whenever \<^verbatim>\<open>copyAndChecksum\<close> succeeds, and also when a
  read fails while the destination takes every write.
\<close>
theorem copyAndChecksum_copies:
  assumes "responses w = [] \<or> snd (fst (copyAndChecksum w r)) = None"
  shows "received (snd (copyAndChecksum w r)) = received w @ stream r"
proof (cases "snd (fst (copyAndChecksum w r)) = None")
  case True
  then show ?thesis by (rule copyAndChecksum_None(2))
next
  case False
  with assms have b: "responses w = []" by simp
  obtain n err d where c: "copyBuffer (w, []) r 0 = ((n, err), d)"
    by (metis prod.exhaust)
  from copyBuffer_buffer_any [OF b, of "[]" r 0] c
  have "d = (w\<lparr>received := received w @ stream r\<rparr>, stream r)" by simp
  with c show ?thesis
    by (simp add: copyAndChecksum_def Copy_def MultiWriter_def New_def)
qed

theorem copyAndChecksum_copies_witness:
  "received (snd (copyAndChecksum \<lparr>received = [0x01], responses = []\<rparr>
          [([0x68, 0x69], None), ([], None), ([0x21], Some EOF), ([0x07], None)]))
     = [0x01, 0x68, 0x69, 0x21]"
  using copyAndChecksum_copies [of "\<lparr>received = [0x01], responses = []\<rparr>"
      "[([0x68, 0x69], None), ([], None), ([0x21], Some EOF), ([0x07], None)]"]
  by simp

text \<open>
  Claim C9. Whenever \<^verbatim>\<open>copyAndChecksum\<close> returns an error, the digest it returns is
  the empty string.
\<close>
theorem copyAndChecksum_error_empty:
  assumes "copyAndChecksum w r = ((s, Some e), w')"
  shows "s = []"
  using assms
  by (auto simp: copyAndChecksum_def split: prod.splits if_splits)

theorem copyAndChecksum_error_empty_witness:
  "copyAndChecksum \<lparr>received = [], responses = [WriteRet 1 (Some (IOError ''disk full''))]\<rparr>
       [([0x68, 0x69], Some EOF)]
     = (([], Some (IOError ''disk full'')),
        \<lparr>received = [0x68], responses = []\<rparr>)"
proof -
  have c: "copyAndChecksum \<lparr>received = [], responses = [WriteRet 1 (Some (IOError ''disk full''))]\<rparr>
       [([0x68, 0x69], Some EOF)]
     = ((fst (fst (copyAndChecksum \<lparr>received = [], responses = [WriteRet 1 (Some (IOError ''disk full''))]\<rparr>
       [([0x68, 0x69], Some EOF)])), Some (IOError ''disk full'')),
        \<lparr>received = [0x68], responses = []\<rparr>)"
    by (simp add: copyAndChecksum_def Copy_def MultiWriter_def New_def write_chunk_def
        multiWriter_Write_def Write_def)
  from copyAndChecksum_error_empty [OF c] c show ?thesis by simp
qed

section \<open>Failures of the copy\<close>

lemma write_chunk_WriteAll:
  "responses w = WriteAll # rs \<Longrightarrow>
     write_chunk (w, h) buf n =
       (None, (w\<lparr>received := received w @ buf, responses := rs\<rparr>, h @ buf),
        n + int (length buf))"
  by (simp add: write_chunk_def multiWriter_Write_def Write_def digest_Write_def)

lemma write_chunk_error:
  "responses w = WriteRet m (Some e) # rs \<Longrightarrow>
     write_chunk (w, h) buf n =
       (Some e, (w\<lparr>received := received w @ take (nat m) buf, responses := rs\<rparr>, h),
        n + (if m < 0 \<or> int (length buf) < m then 0 else m))"
  by (simp add: write_chunk_def multiWriter_Write_def Write_def digest_Write_def Let_def)

lemma write_chunk_short:
  "responses w = WriteRet m None # rs \<Longrightarrow> m \<noteq> int (length buf) \<Longrightarrow>
     write_chunk (w, h) buf n =
       (Some ErrShortWrite,
        (w\<lparr>received := received w @ take (nat m) buf, responses := rs\<rparr>, h),
        n + (if m < 0 \<or> int (length buf) < m then 0 else m))"
  by (simp add: write_chunk_def multiWriter_Write_def Write_def digest_Write_def Let_def)

lemma copyBuffer_append_buffer:
  "list_all (\<lambda>(buf, er). er = None) pre \<Longrightarrow> responses w = [] \<Longrightarrow>
     copyBuffer (w, h) (pre @ rest) n =
       copyBuffer (w\<lparr>received := received w @ concat (map fst pre)\<rparr>, h @ concat (map fst pre))
         rest (n + int (length (concat (map fst pre))))"
proof (induction pre arbitrary: w h n)
  case Nil
  then show ?case by simp
next
  case (Cons a pre)
  obtain buf where a: "a = (buf, None)" using Cons.prems(1) by (cases a) auto
  from Cons.prems have p: "list_all (\<lambda>(buf, er). er = None) pre" by simp
  have r: "responses (w\<lparr>received := received w @ buf\<rparr>) = []"
    using Cons.prems(2) by simp
  show ?case
    using Cons.IH [OF p r, of "h @ buf" "n + int (length buf)"] Cons.IH [OF p Cons.prems(2), of h n]
    by (simp add: a write_chunk_buffer [OF Cons.prems(2)] add.assoc)
qed

lemma copyBuffer_append_script:
  "list_all (\<lambda>(buf, er). er = None) pre \<Longrightarrow>
   responses w = replicate (writes pre) WriteAll @ rs \<Longrightarrow>
     copyBuffer (w, h) (pre @ rest) n =
       copyBuffer (w\<lparr>received := received w @ concat (map fst pre), responses := rs\<rparr>,
                   h @ concat (map fst pre))
         rest (n + int (length (concat (map fst pre))))"
proof (induction pre arbitrary: w h n)
  case Nil
  then have "w\<lparr>responses := rs\<rparr> = w" by (simp add: writes_def)
  then show ?case by simp
next
  case (Cons a pre)
  obtain buf where a: "a = (buf, None)" using Cons.prems(1) by (cases a) auto
  from Cons.prems have p: "list_all (\<lambda>(buf, er). er = None) pre" by simp
  show ?case
  proof (cases "buf = []")
    case True
    with Cons.prems(2) a have "responses w = replicate (writes pre) WriteAll @ rs"
      by (simp add: writes_def)
    from Cons.IH [OF p this, of h n] True a show ?thesis by simp
  next
    case False
    with Cons.prems(2) a have r: "responses w = WriteAll # replicate (writes pre) WriteAll @ rs"
      by (simp add: writes_def)
    then have "responses (w\<lparr>received := received w @ buf, responses := replicate (writes pre) WriteAll @ rs\<rparr>)
        = replicate (writes pre) WriteAll @ rs"
      by simp
    from Cons.IH [OF p this, of "h @ buf" "n + int (length buf)"] False a
    show ?thesis by (simp add: write_chunk_WriteAll [OF r] add.assoc)
  qed
qed

lemma Copy_error:
  "Copy (MultiWriter w New) r = ((n, Some e), d) \<Longrightarrow> fst (copyAndChecksum w r) = ([], Some e)"
  by (simp add: copyAndChecksum_def split: prod.splits)

lemma read_error:
  assumes "list_all (\<lambda>(buf, er). er = None) pre" and "e \<noteq> EOF" and "responses w = []"
  shows "copyAndChecksum w (pre @ (buf, Some e) # rest) =
    (([], Some e), w\<lparr>received := received w @ concat (map fst pre) @ buf\<rparr>)"
proof -
  have "responses (w\<lparr>received := received w @ concat (map fst pre)\<rparr>) = []"
    using assms(3) by simp
  note wc = write_chunk_buffer [OF this]
  show ?thesis
    using assms(2)
    by (simp add: copyAndChecksum_def Copy_def MultiWriter_def New_def
        copyBuffer_append_buffer [OF assms(1,3)] wc)
qed

lemma write_error:
  assumes "list_all (\<lambda>(buf, er). er = None) pre" and "buf \<noteq> []"
    and "responses w = replicate (writes pre) WriteAll @ WriteRet m (Some e) # rs"
  shows "copyAndChecksum w (pre @ (buf, er) # rest) =
    (([], Some e),
     w\<lparr>received := received w @ concat (map fst pre) @ take (nat m) buf, responses := rs\<rparr>)"
proof -
  have "responses (w\<lparr>received := received w @ concat (map fst pre),
      responses := WriteRet m (Some e) # rs\<rparr>) = WriteRet m (Some e) # rs"
    by simp
  note wc = write_chunk_error [OF this]
  show ?thesis
    using assms(2)
    by (simp add: copyAndChecksum_def Copy_def MultiWriter_def New_def
        copyBuffer_append_script [OF assms(1,3)] wc)
qed

lemma short_write:
  assumes "list_all (\<lambda>(buf, er). er = None) pre" and "buf \<noteq> []" and "m \<noteq> int (length buf)"
    and "responses w = replicate (writes pre) WriteAll @ WriteRet m None # rs"
  shows "copyAndChecksum w (pre @ (buf, er) # rest) =
    (([], Some ErrShortWrite),
     w\<lparr>received := received w @ concat (map fst pre) @ take (nat m) buf, responses := rs\<rparr>)"
proof -
  have "responses (w\<lparr>received := received w @ concat (map fst pre),
      responses := WriteRet m None # rs\<rparr>) = WriteRet m None # rs"
    by simp
  note wc = write_chunk_short [OF this assms(3)]
  show ?thesis
    using assms(2)
    by (simp add: copyAndChecksum_def Copy_def MultiWriter_def New_def
        copyBuffer_append_script [OF assms(1,4)] wc)
qed

text \<open>
  Claim C3. A failed copy is returned as that error, with no digest: whatever error
  \<^verbatim>\<open>io.Copy\<close> returns is the error of \<^verbatim>\<open>copyAndChecksum\<close>; a read that fails (with
  another error than \<^verbatim>\<open>io.EOF\<close>) after any number of good reads gives that read error;
  a write that fails after any number of good reads and writes gives that write error,
  the destination holding what it took before; and a write that takes another count than
  it was given, without an error, gives \<^verbatim>\<open>io.ErrShortWrite\<close>.
\<close>
theorem copyAndChecksum_propagates:
  "(Copy (MultiWriter w New) r = ((n, Some e), d) \<longrightarrow>
      fst (copyAndChecksum w r) = ([], Some e)) \<and>
   (list_all (\<lambda>(buf, er). er = None) pre1 \<and> e1 \<noteq> EOF \<and> responses w1 = [] \<longrightarrow>
      copyAndChecksum w1 (pre1 @ (buf1, Some e1) # rest1) =
        (([], Some e1), w1\<lparr>received := received w1 @ concat (map fst pre1) @ buf1\<rparr>)) \<and>
   (list_all (\<lambda>(buf, er). er = None) pre2 \<and> buf2 \<noteq> [] \<and>
    responses w2 = replicate (writes pre2) WriteAll @ WriteRet m2 (Some e2) # rs2 \<longrightarrow>
      copyAndChecksum w2 (pre2 @ (buf2, er2) # rest2) =
        (([], Some e2),
         w2\<lparr>received := received w2 @ concat (map fst pre2) @ take (nat m2) buf2,
            responses := rs2\<rparr>)) \<and>
   (list_all (\<lambda>(buf, er). er = None) pre3 \<and> buf3 \<noteq> [] \<and> m3 \<noteq> int (length buf3) \<and>
    responses w3 = replicate (writes pre3) WriteAll @ WriteRet m3 None # rs3 \<longrightarrow>
      copyAndChecksum w3 (pre3 @ (buf3, er3) # rest3) =
        (([], Some ErrShortWrite),
         w3\<lparr>received := received w3 @ concat (map fst pre3) @ take (nat m3) buf3,
            responses := rs3\<rparr>))"
  using Copy_error [of w r n e d] read_error [of pre1 e1 w1 buf1 rest1]
    write_error [of pre2 buf2 w2 m2 e2 rs2 er2 rest2]
    short_write [of pre3 buf3 m3 w3 rs3 er3 rest3]
  by blast

theorem copyAndChecksum_propagates_witness:
  "fst (copyAndChecksum \<lparr>received = [], responses = []\<rparr>
          [([0x01], None), ([0x02], Some (IOError ''reset''))]) = ([], Some (IOError ''reset'')) \<and>
   copyAndChecksum \<lparr>received = [], responses = []\<rparr>
          [([0x01], None), ([], None), ([0x02], Some (IOError ''reset'')), ([0x03], Some EOF)] =
     (([], Some (IOError ''reset'')), \<lparr>received = [0x01, 0x02], responses = []\<rparr>) \<and>
   copyAndChecksum \<lparr>received = [], responses = [WriteAll, WriteRet 1 (Some (IOError ''disk full''))]\<rparr>
          [([0x01], None), ([], None), ([0x02, 0x03], None), ([0x04], Some EOF)] =
     (([], Some (IOError ''disk full'')), \<lparr>received = [0x01, 0x02], responses = []\<rparr>) \<and>
   copyAndChecksum \<lparr>received = [], responses = [WriteAll, WriteRet 1 None]\<rparr>
          [([0x01], None), ([], None), ([0x02, 0x03], None), ([0x04], Some EOF)] =
     (([], Some ErrShortWrite), \<lparr>received = [0x01, 0x02], responses = []\<rparr>)"
  using copyAndChecksum_propagates [where
      w = "\<lparr>received = [], responses = []\<rparr>"
      and r = "[([0x01], None), ([0x02], Some (IOError ''reset''))]"
      and n = 2 and e = "IOError ''reset''"
      and d = "(\<lparr>received = [0x01, 0x02], responses = []\<rparr>, [0x01, 0x02])"
      and ?w1.0 = "\<lparr>received = [], responses = []\<rparr>"
      and ?pre1.0 = "[([0x01], None), ([], None)]" and ?buf1.0 = "[0x02]"
      and ?e1.0 = "IOError ''reset''" and ?rest1.0 = "[([0x03], Some EOF)]"
      and ?w2.0 = "\<lparr>received = [], responses = [WriteAll, WriteRet 1 (Some (IOError ''disk full''))]\<rparr>"
      and ?pre2.0 = "[([0x01], None), ([], None)]" and ?buf2.0 = "[0x02, 0x03]" and ?er2.0 = None
      and ?rest2.0 = "[([0x04], Some EOF)]" and ?m2.0 = 1 and ?e2.0 = "IOError ''disk full''"
      and ?rs2.0 = "[]"
      and ?w3.0 = "\<lparr>received = [], responses = [WriteAll, WriteRet 1 None]\<rparr>"
      and ?pre3.0 = "[([0x01], None), ([], None)]" and ?buf3.0 = "[0x02, 0x03]" and ?er3.0 = None
      and ?rest3.0 = "[([0x04], Some EOF)]" and ?m3.0 = 1 and ?rs3.0 = "[]"]
  by (simp add: writes_def Copy_def MultiWriter_def New_def write_chunk_def
      multiWriter_Write_def Write_def digest_Write_def)

section \<open>The empty source\<close>

lemma sha512_empty_hex:
  "EncodeToString (sha512 []) =
     ''cf83e1357eefb8bdf1542850d66d8007d620e4050b5715dc83f4a921d36ce9ce47d0d13c5d85f2b0ff8318d2877eec2f63b931bd47417a81a538327af927da3e''"
  by code_simp

lemma copyBuffer_no_bytes:
  "\<forall>(buf, er) \<in> set r. buf = [] \<and> (er = None \<or> er = Some EOF) \<Longrightarrow>
     copyBuffer dst r n = ((n, None), dst)"
proof (induction r)
  case Nil
  show ?case by simp
next
  case (Cons a r)
  obtain buf er where a: "a = (buf, er)" by (cases a)
  from Cons.prems a have b: "buf = []" and e: "er = None \<or> er = Some EOF" by auto
  from Cons.prems have "\<forall>(buf, er) \<in> set r. buf = [] \<and> (er = None \<or> er = Some EOF)" by simp
  from Cons.IH [OF this] a b e show ?case by auto
qed

text \<open>
  Claim C4. On a source with no bytes to read (every read returns nothing, up to
  \<^verbatim>\<open>io.EOF\<close>) \<^verbatim>\<open>copyAndChecksum\<close> succeeds with the SHA-512 digest of the empty
  byte sequence, and the destination, never written to, is unchanged.
\<close>
theorem copyAndChecksum_empty:
  assumes "\<forall>(buf, er) \<in> set r. buf = [] \<and> (er = None \<or> er = Some EOF)"
  shows "copyAndChecksum w r =
    ((''cf83e1357eefb8bdf1542850d66d8007d620e4050b5715dc83f4a921d36ce9ce47d0d13c5d85f2b0ff8318d2877eec2f63b931bd47417a81a538327af927da3e'',
      None), w)"
  using copyBuffer_no_bytes [OF assms, of "(w, [])" 0] sha512_empty_hex
  by (simp add: copyAndChecksum_def Copy_def MultiWriter_def New_def Sum_def)

theorem copyAndChecksum_empty_witness:
  "copyAndChecksum \<lparr>received = [0x2a], responses = [WriteRet 0 (Some ErrShortWrite)]\<rparr>
       [([], None), ([], Some EOF)] =
    ((''cf83e1357eefb8bdf1542850d66d8007d620e4050b5715dc83f4a921d36ce9ce47d0d13c5d85f2b0ff8318d2877eec2f63b931bd47417a81a538327af927da3e'',
      None), \<lparr>received = [0x2a], responses = [WriteRet 0 (Some ErrShortWrite)]\<rparr>)"
  using copyAndChecksum_empty [of "[([], None), ([], Some EOF)]"
      "\<lparr>received = [0x2a], responses = [WriteRet 0 (Some ErrShortWrite)]\<rparr>"]
  by simp

section \<open>The alert of \<^verbatim>\<open>APS.Map\<close>\<close>

lemma Map_dom: "dom (Map Number a) = {''aps''}"
  by (simp add: Map_def Let_def)

lemma Map_alert:
  "the (Map Number a ''aps'') ''alert'' =
     (if isZero (Alert a) then None
      else if isSimple (Alert a) then Some (VString (Body (Alert a)))
      else Some (VAlert (Alert a)))"
  by (simp add: Map_def Let_def split: prod.splits)

text \<open>
  What the code does: the alert is the full struct exactly when one of the eight fields
  that \<^verbatim>\<open>isSimple\<close> looks at is set; \<^verbatim>\<open>SubtitleLocKey\<close>, \<^verbatim>\<open>SubtitleLocArgs\<close> and
  \<^verbatim>\<open>SafariAction\<close> are not among them.
\<close>

lemma Map_alert_full:
  "the (Map Number a ''aps'') ''alert'' = Some (VAlert (Alert a)) \<longleftrightarrow>
     Title (Alert a) \<noteq> [] \<or> Subtitle (Alert a) \<noteq> [] \<or> LaunchImage (Alert a) \<noteq> [] \<or>
     TitleLocKey (Alert a) \<noteq> [] \<or> TitleLocArgs (Alert a) \<noteq> [] \<or>
     LocKey (Alert a) \<noteq> [] \<or> LocArgs (Alert a) \<noteq> [] \<or> ActionLocKey (Alert a) \<noteq> []"
  by (auto simp: Map_alert isZero_def isSimple_def)

lemma Map_alert_absent_zero:
  "the (Map Number (APS_zero b) ''aps'') ''alert'' = None"
  by (simp add: Map_alert isZero_def isSimple_def APS_zero_def Alert_zero_def)

text \<open>
  Claim C10. The claim holds for the top-level key, for the bare body and for the absent
  alert, but not for every localization key: an alert whose only fields are \<^verbatim>\<open>Body\<close> and
  \<^verbatim>\<open>SubtitleLocKey\<close> is sent as the bare body string, the key lost, and an alert whose
  only field is \<^verbatim>\<open>SubtitleLocKey\<close> is not sent at all. This evaluates \<^verbatim>\<open>Map\<close> on both.
\<close>
theorem Map_drops_SubtitleLocKey:
  "the (Map (\<lambda>b. (0, False))
          ((APS_zero ())\<lparr>Alert := Alert_zero\<lparr>Body := ''hi'', SubtitleLocKey := ''GREETING''\<rparr>\<rparr>)
          ''aps'') ''alert''
     = Some (VString ''hi'') \<and>
   Map (\<lambda>b. (0, False)) ((APS_zero ())\<lparr>Alert := Alert_zero\<lparr>SubtitleLocKey := ''GREETING''\<rparr>\<rparr>)
     = [''aps'' \<mapsto> Map.empty]"
  by (simp add: Map_def isZero_def isSimple_def APS_zero_def Alert_zero_def float32_positive_def)

section \<open>The manifest of a build\<close>

lemma run_append:
  "run p (xs @ ys) = (case run p xs of Inl e \<Rightarrow> Inl e | Inr p' \<Rightarrow> run p' ys)"
  by (induction xs arbitrary: p) (auto split: sum.splits)

lemma add_file_ok:
  assumes "state p = WritingFiles" and "path f \<notin> fst ` set (manifest p)"
    and "ends_with_EOF (content f)"
  shows "add_file p f =
    Inr (p\<lparr>entries := entries p @ [archive_entry f], manifest := manifest p @ [manifest_pair f]\<rparr>)"
proof -
  have "copyAndChecksum \<lparr>received = [], responses = []\<rparr> (content f) =
      ((EncodeToString (sha512 (stream (content f))), None),
       \<lparr>received = stream (content f), responses = []\<rparr>)"
    using copyAndChecksum_buffer [OF assms(3), of "\<lparr>received = [], responses = []\<rparr>"] by simp
  with assms(1,2) show ?thesis
    by (simp add: add_file_def archive_entry_def manifest_pair_def)
qed

lemma run_add_files:
  assumes "state p = WritingFiles" and "distinct (map path fs)"
    and "set (map path fs) \<inter> fst ` set (manifest p) = {}"
    and "\<forall>f \<in> set fs. ends_with_EOF (content f)"
  shows "run p (map AddFile fs) =
    Inr (p\<lparr>entries := entries p @ map archive_entry fs,
           manifest := manifest p @ map manifest_pair fs\<rparr>)"
  using assms
proof (induction fs arbitrary: p)
  case Nil
  then show ?case by simp
next
  case (Cons f fs)
  let ?p = "p\<lparr>entries := entries p @ [archive_entry f], manifest := manifest p @ [manifest_pair f]\<rparr>"
  from Cons.prems have a: "add_file p f = Inr ?p"
    by (intro add_file_ok) auto
  have "run ?p (map AddFile fs) =
      Inr (?p\<lparr>entries := entries ?p @ map archive_entry fs,
              manifest := manifest ?p @ map manifest_pair fs\<rparr>)"
  proof (rule Cons.IH)
    show "state ?p = WritingFiles" using Cons.prems(1) by simp
    show "distinct (map path fs)" using Cons.prems(2) by simp
    show "set (map path fs) \<inter> fst ` set (manifest ?p) = {}"
      using Cons.prems(2,3) by (auto simp: manifest_pair_def)
    show "\<forall>f \<in> set fs. ends_with_EOF (content f)" using Cons.prems(4) by simp
  qed
  with a show ?case by simp
qed

lemma build_manifest_ok:
  assumes "\<forall>f \<in> set fs. ends_with_EOF (content f)"
  shows "build_manifest fs =
    (if \<not> distinct (map path fs) then Inl DuplicatePath else Inr (map manifest_pair fs))"
proof (cases "distinct (map path fs)")
  case False
  then show ?thesis by (simp add: build_manifest_def)
next
  case True
  have "run (new_package\<lparr>state := WritingFiles\<rparr>) (map AddFile fs) =
      Inr (new_package\<lparr>state := WritingFiles\<rparr>
        \<lparr>entries := entries (new_package\<lparr>state := WritingFiles\<rparr>) @ map archive_entry fs,
         manifest := manifest (new_package\<lparr>state := WritingFiles\<rparr>) @ map manifest_pair fs\<rparr>)"
    by (rule run_add_files) (use True assms in \<open>simp_all add: new_package_def\<close>)
  with True show ?thesis
    by (simp add: build_manifest_def begin_files_def new_package_def)
qed

text \<open>
  Claim C6. Two lists of files that hold the same (path, content) pairs, in any order and
  however the contents arrive in reads, give the same set of (path, digest) pairs, or are
  both rejected for a duplicate path.
\<close>
theorem manifest_order_independent:
  assumes "mset (map archive_entry fs) = mset (map archive_entry fs')"
    and "\<forall>f \<in> set fs \<union> set fs'. ends_with_EOF (content f)"
  shows "map_sum id set (build_manifest fs) = map_sum id set (build_manifest fs')"
proof -
  have p: "map path fs = map fst (map archive_entry fs)" "map path fs' = map fst (map archive_entry fs')"
    by (simp_all add: archive_entry_def comp_def)
  have "mset (map path fs) = mset (map path fs')"
    unfolding p using assms(1) by (metis mset_map)
  then have d: "distinct (map path fs) \<longleftrightarrow> distinct (map path fs')"
    by (rule mset_eq_imp_distinct_iff)
  have m: "map manifest_pair fs = map (\<lambda>(q, c). (q, EncodeToString (sha512 c))) (map archive_entry fs)"
    "map manifest_pair fs' = map (\<lambda>(q, c). (q, EncodeToString (sha512 c))) (map archive_entry fs')"
    by (simp_all add: archive_entry_def manifest_pair_def)
  have "set (map archive_entry fs) = set (map archive_entry fs')"
    using assms(1) by (rule mset_eq_setD)
  then have s: "set (map manifest_pair fs) = set (map manifest_pair fs')"
    unfolding m by (simp only: set_map)
  from assms(2) have "\<forall>f \<in> set fs. ends_with_EOF (content f)" "\<forall>f \<in> set fs'. ends_with_EOF (content f)"
    by auto
  then show ?thesis
    using d s by (simp add: build_manifest_ok)
qed

theorem manifest_order_independent_witness:
  "map_sum id set (build_manifest
      [\<lparr>path = ''icon.png'', content = [([0x01, 0x02], Some EOF)]\<rparr>,
       \<lparr>path = ''icon@2x.png'', content = [([0x03], None), ([], Some EOF)]\<rparr>])
   = map_sum id set (build_manifest
      [\<lparr>path = ''icon@2x.png'', content = [([0x03], Some EOF)]\<rparr>,
       \<lparr>path = ''icon.png'', content = [([0x01], None), ([0x02], None)]\<rparr>])"
  using manifest_order_independent [of
      "[\<lparr>path = ''icon.png'', content = [([0x01, 0x02], Some EOF)]\<rparr>,
        \<lparr>path = ''icon@2x.png'', content = [([0x03], None), ([], Some EOF)]\<rparr>]"
      "[\<lparr>path = ''icon@2x.png'', content = [([0x03], Some EOF)]\<rparr>,
        \<lparr>path = ''icon.png'', content = [([0x01], None), ([0x02], None)]\<rparr>]"]
  by (simp add: archive_entry_def)

section \<open>Duplicate paths, the states of a build and the empty build\<close>

lemma apply_op_distinct:
  assumes "apply_op p x = Inr p'" and "distinct (map fst (manifest p))"
  shows "distinct (map fst (manifest p'))"
proof (cases x)
  case (AddFile f)
  with assms show ?thesis
    by (auto simp: add_file_def split: if_splits prod.splits option.splits)
next
  case (Sign i)
  with assms show ?thesis
    by (auto simp: sign_manifest_def split: if_splits option.splits)
qed (use assms in \<open>auto simp: begin_files_def write_manifest_def finalize_def split: if_splits\<close>)

lemma run_distinct:
  "run p xs = Inr p' \<Longrightarrow> distinct (map fst (manifest p)) \<Longrightarrow> distinct (map fst (manifest p'))"
proof (induction xs arbitrary: p)
  case Nil
  then show ?case by simp
next
  case (Cons x xs)
  then obtain q where q: "apply_op p x = Inr q" and r: "run q xs = Inr p'"
    by (auto split: sum.splits)
  from Cons.IH [OF r apply_op_distinct [OF q Cons.prems(2)]] show ?case .
qed

text \<open>
  Claim C5. A build over files of which two share a path fails with \<open>DuplicatePath\<close>,
  and so does the manifest builder; no package is returned. Adding a file whose path is
  already in the manifest fails with \<open>DuplicatePath\<close> whatever its content, and in the
  package of any run of steps that succeeds every path of the manifest occurs once, so no
  entry has replaced another.
\<close>
theorem duplicate_path_rejected:
  "(\<not> distinct (map path fs) \<longrightarrow>
      build i fs = Inl DuplicatePath \<and> build_manifest fs = Inl DuplicatePath) \<and>
   (state p = WritingFiles \<and> path f \<in> fst ` set (manifest p) \<longrightarrow>
      add_file p f = Inl DuplicatePath) \<and>
   (run new_package xs = Inr p' \<longrightarrow> distinct (map fst (manifest p')))"
proof -
  have "run new_package xs = Inr p' \<Longrightarrow> distinct (map fst (manifest p'))"
    using run_distinct [of new_package xs p'] by (simp add: new_package_def)
  then show ?thesis
    by (auto simp: build_def build_manifest_def add_file_def)
qed


theorem duplicate_path_rejected_witness:
  "build \<lparr>sign = \<lambda>m. Some (rev m), verify = \<lambda>m s. s = rev m\<rparr>
      [\<lparr>path = ''icon.png'', content = [([0x01], Some EOF)]\<rparr>,
       \<lparr>path = ''icon@2x.png'', content = [([0x02], Some EOF)]\<rparr>,
       \<lparr>path = ''icon.png'', content = [([0x03], Some EOF)]\<rparr>] = Inl DuplicatePath \<and>
   add_file \<lparr>state = WritingFiles, entries = [(''icon.png'', [0x01])],
             manifest = [(''icon.png'', ''00'')]\<rparr>
      \<lparr>path = ''icon.png'', content = [([0x03], Some EOF)]\<rparr> = Inl DuplicatePath \<and>
   distinct (map fst (manifest (new_package\<lparr>state := WritingFiles\<rparr>)))"
  using duplicate_path_rejected [where
      fs = "[\<lparr>path = ''icon.png'', content = [([0x01], Some EOF)]\<rparr>,
             \<lparr>path = ''icon@2x.png'', content = [([0x02], Some EOF)]\<rparr>,
             \<lparr>path = ''icon.png'', content = [([0x03], Some EOF)]\<rparr>]"
      and i = "\<lparr>sign = \<lambda>m. Some (rev m), verify = \<lambda>m s. s = rev m\<rparr>"
      and p = "\<lparr>state = WritingFiles, entries = [(''icon.png'', [0x01])],
                 manifest = [(''icon.png'', ''00'')]\<rparr>"
      and f = "\<lparr>path = ''icon.png'', content = [([0x03], Some EOF)]\<rparr>"
      and xs = "[Begin]" and p' = "new_package\<lparr>state := WritingFiles\<rparr>"]
  by (simp add: begin_files_def new_package_def)

lemma apply_op_state:
  assumes "apply_op p x = Inr p'"
  shows "state p' = state p \<and> state p = WritingFiles \<or> next_state (state p) = Some (state p')"
proof (cases x)
  case (AddFile f)
  with assms show ?thesis
    by (auto simp: add_file_def split: if_splits prod.splits option.splits)
next
  case (Sign i)
  with assms show ?thesis
    by (auto simp: sign_manifest_def split: if_splits option.splits)
qed (use assms in \<open>auto simp: begin_files_def write_manifest_def finalize_def split: if_splits\<close>)

lemma trace_hd: "\<exists>ss. trace p xs = state p # ss"
  by (cases xs) simp_all

lemma trace_steps_ok: "steps_ok (trace p xs)"
proof (induction xs arbitrary: p)
  case Nil
  show ?case by simp
next
  case (Cons x xs)
  show ?case
  proof (cases "apply_op p x")
    case (Inl e)
    then show ?thesis by simp
  next
    case (Inr q)
    obtain ss where ss: "trace q xs = state q # ss" using trace_hd by blast
    from Cons.IH [of q] apply_op_state [OF Inr] show ?thesis
      by (simp add: Inr ss)
  qed
qed

lemma trace_Signed:
  "state p = Empty \<or> state p = WritingFiles \<Longrightarrow> Signed \<in> set (trace p xs) \<Longrightarrow>
     ManifestReady \<in> set (trace p xs)"
proof (induction xs arbitrary: p)
  case Nil
  then show ?case by auto
next
  case (Cons x xs)
  show ?case
  proof (cases "apply_op p x")
    case (Inl e)
    with Cons.prems show ?thesis by auto
  next
    case (Inr q)
    from Cons.prems Inr have s: "Signed \<in> set (trace q xs)" by auto
    obtain ss where ss: "trace q xs = state q # ss" using trace_hd by blast
    from apply_op_state [OF Inr] Cons.prems(1)
    have "state q = WritingFiles \<or> state q = ManifestReady" by auto
    then show ?thesis
    proof
      assume "state q = WritingFiles"
      from Cons.IH [OF disjI2 [OF this] s] show ?thesis by (simp add: Inr)
    next
      assume "state q = ManifestReady"
      with ss show ?thesis by (simp add: Inr)
    qed
  qed
qed

lemma Finalized_terminal: "state p = Finalized \<Longrightarrow> apply_op p x = Inl ArchiveWriteFailure"
  by (cases x) (simp_all add: begin_files_def add_file_def write_manifest_def
      sign_manifest_def finalize_def)

lemma add_file_state: "add_file p f = Inr p' \<Longrightarrow> state p' = state p"
  by (auto simp: add_file_def split: if_splits prod.splits option.splits)

lemma trace_add_files:
  "run p (map AddFile fs) = Inr p' \<Longrightarrow>
     state p' = state p \<and>
     trace p (map AddFile fs @ rest) = replicate (length fs) (state p) @ trace p' rest"
proof (induction fs arbitrary: p)
  case Nil
  then show ?case by simp
next
  case (Cons f fs)
  then obtain q where q: "add_file p f = Inr q" and r: "run q (map AddFile fs) = Inr p'"
    by (auto split: sum.splits)
  from Cons.IH [OF r] add_file_state [OF q] q show ?case by simp
qed

lemma remdups_adj_replicate:
  "remdups_adj (replicate n x @ x # ys) = remdups_adj (x # ys)"
proof (induction n)
  case 0
  show ?case by simp
next
  case (Suc n)
  then show ?case by (cases n) simp_all
qed

lemma remdups_adj_Cons_replicate:
  assumes "y \<noteq> x"
  shows "remdups_adj (y # replicate n x @ x # ys) = y # remdups_adj (x # ys)"
proof (cases n)
  case 0
  with assms show ?thesis by simp
next
  case (Suc m)
  with assms remdups_adj_replicate [of "Suc m" x ys] show ?thesis by simp
qed

lemma build_trace:
  assumes "build i fs = Inr p"
  shows "state p = Finalized \<and>
    remdups_adj (trace new_package (build_ops i fs)) =
      [Empty, WritingFiles, ManifestReady, Signed, Finalized]"
proof -
  let ?p1 = "new_package\<lparr>state := WritingFiles\<rparr>"
  from assms have r: "run ?p1 (map AddFile fs @ [WriteManifest, Sign i, Finalize]) = Inr p"
    by (simp add: build_def build_ops_def begin_files_def new_package_def split: if_splits)
  then obtain p2 where a: "run ?p1 (map AddFile fs) = Inr p2"
    and t: "run p2 [WriteManifest, Sign i, Finalize] = Inr p"
    by (auto simp: run_append split: sum.splits)
  have s2: "state p2 = WritingFiles"
    using trace_add_files [OF a, of "[]"] by simp
  from t s2 have fin: "state p = Finalized"
    and tr: "trace p2 [WriteManifest, Sign i, Finalize] = [WritingFiles, ManifestReady, Signed, Finalized]"
    by (auto simp: write_manifest_def sign_manifest_def finalize_def split: if_splits option.splits)
  have "trace new_package (build_ops i fs) =
      Empty # replicate (length fs) WritingFiles @ [WritingFiles, ManifestReady, Signed, Finalized]"
    using trace_add_files [OF a, of "[WriteManifest, Sign i, Finalize]"] tr
    by (simp add: build_ops_def begin_files_def new_package_def)
  then show ?thesis
    using fin remdups_adj_Cons_replicate [of Empty WritingFiles "length fs"
        "[ManifestReady, Signed, Finalized]"]
    by simp
qed

text \<open>
  Claim C7. Every transition of every run of steps either adds a file in \<open>WritingFiles\<close>
  or moves to the next state of
  \<open>Empty \<rightarrow> WritingFiles \<rightarrow> ManifestReady \<rightarrow> Signed \<rightarrow> Finalized\<close>; a run from a
  fresh package that reaches \<open>Signed\<close> has passed \<open>ManifestReady\<close>; every step on a
  finalized package, a write among them, fails; and a build that succeeds ends in
  \<open>Finalized\<close> after passing through exactly the five states in order.
\<close>
theorem build_state_sequence:
  "steps_ok (trace p xs) \<and>
   (Signed \<in> set (trace new_package ys) \<longrightarrow> ManifestReady \<in> set (trace new_package ys)) \<and>
   (state q = Finalized \<longrightarrow> apply_op q x = Inl ArchiveWriteFailure) \<and>
   (build i fs = Inr r \<longrightarrow>
      state r = Finalized \<and>
      remdups_adj (trace new_package (build_ops i fs)) =
        [Empty, WritingFiles, ManifestReady, Signed, Finalized])"
  using trace_steps_ok [of p xs] trace_Signed [of new_package ys] Finalized_terminal [of q x]
    build_trace [of i fs r]
  by (simp add: new_package_def)

theorem build_state_sequence_witness:
  "Signed \<in> set (trace new_package
      [Begin, WriteManifest, Sign \<lparr>sign = \<lambda>m. Some (rev m), verify = \<lambda>m s. s = rev m\<rparr>]) \<and>
   ManifestReady \<in> set (trace new_package
      [Begin, WriteManifest, Sign \<lparr>sign = \<lambda>m. Some (rev m), verify = \<lambda>m s. s = rev m\<rparr>]) \<and>
   steps_ok (trace new_package [Begin, AddFile \<lparr>path = ''icon.png'', content = []\<rparr>, Finalize]) \<and>
   apply_op (new_package\<lparr>state := Finalized\<rparr>) (AddFile \<lparr>path = ''icon.png'', content = []\<rparr>)
     = Inl ArchiveWriteFailure \<and>
   build \<lparr>sign = \<lambda>m. Some (rev m), verify = \<lambda>m s. s = rev m\<rparr> [] =
     Inr \<lparr>state = Finalized,
          entries = [(''manifest.json'', [0x7B, 0x7D]), (''signature'', [0x7D, 0x7B])],
          manifest = []\<rparr> \<and>
   remdups_adj (trace new_package
      (build_ops \<lparr>sign = \<lambda>m. Some (rev m), verify = \<lambda>m s. s = rev m\<rparr> [])) =
     [Empty, WritingFiles, ManifestReady, Signed, Finalized]"
  using build_state_sequence [where
      p = new_package
      and xs = "[Begin, AddFile \<lparr>path = ''icon.png'', content = []\<rparr>, Finalize]"
      and ys = "[Begin, WriteManifest, Sign \<lparr>sign = \<lambda>m. Some (rev m), verify = \<lambda>m s. s = rev m\<rparr>]"
      and q = "new_package\<lparr>state := Finalized\<rparr>"
      and x = "AddFile \<lparr>path = ''icon.png'', content = []\<rparr>"
      and i = "\<lparr>sign = \<lambda>m. Some (rev m), verify = \<lambda>m s. s = rev m\<rparr>"
      and fs = "[]"
      and r = "\<lparr>state = Finalized,
          entries = [(''manifest.json'', [0x7B, 0x7D]), (''signature'', [0x7D, 0x7B])],
          manifest = []\<rparr>"]
  by (simp add: build_def build_ops_def begin_files_def write_manifest_def sign_manifest_def
      finalize_def new_package_def manifest_bytes_def)

text \<open>
  Claim C8. A build over no files with a valid identity succeeds: the package is
  finalized and holds exactly two entries, \<^verbatim>\<open>manifest.json\<close> with the empty JSON object
  and \<^verbatim>\<open>signature\<close> with a signature that the identity's public counterpart accepts
  for those manifest bytes.
\<close>
theorem build_empty:
  assumes "valid_identity i"
  shows "\<exists>s. build i [] =
      Inr \<lparr>state = Finalized,
           entries = [(''manifest.json'', map of_char ''{}''), (''signature'', s)],
           manifest = []\<rparr> \<and>
    verify i (map of_char ''{}'') s"
proof -
  from assms obtain s where s: "sign i (map of_char ''{}'') = Some s" "verify i (map of_char ''{}'') s"
    unfolding valid_identity_def by blast
  then show ?thesis
    by (simp add: build_def build_ops_def begin_files_def write_manifest_def sign_manifest_def
        finalize_def new_package_def manifest_bytes_def)
qed

theorem build_empty_witness:
  "valid_identity \<lparr>sign = \<lambda>m. Some (rev m), verify = \<lambda>m s. s = rev m\<rparr> \<and>
   build \<lparr>sign = \<lambda>m. Some (rev m), verify = \<lambda>m s. s = rev m\<rparr> [] =
     Inr \<lparr>state = Finalized,
          entries = [(''manifest.json'', [0x7B, 0x7D]), (''signature'', [0x7D, 0x7B])],
          manifest = []\<rparr>"
proof -
  have v: "valid_identity \<lparr>sign = \<lambda>m. Some (rev m), verify = \<lambda>m s. s = rev m\<rparr>"
    by (simp add: valid_identity_def)
  from build_empty [OF v] v show ?thesis by auto
qed

end
